theory Spec2Isabelle
  imports Main
begin

section \<open>The Go runtime the code relies on: channels, panics, errors\<close>

text \<open>
  A Go \<^verbatim>\<open>error\<close> value is modelled by its message; \<^verbatim>\<open>nil\<close> is \<open>None\<close> of
  \<open>error option\<close>. A panic ends the whole process, so every operation that can panic
  returns \<open>panic + state\<close> with \<open>Inl\<close> the panic.
\<close>

type_synonym error = string

datatype panic = CloseOfNilChannel | CloseOfClosedChannel | NilPointerDereference

text \<open>
  The signal channels of the code are \<^verbatim>\<open>chan struct{}\<close> values on which nobody ever
  sends: all that matters of such a channel is whether it has been closed. The runtime's
  channels are a list of closed flags, a channel value is an index into it, and the
  \<^verbatim>\<open>nil\<close> channel is \<open>None\<close> of \<open>chan option\<close>.
\<close>

type_synonym chan = nat
type_synonym chans = "bool list"

definition make_chan :: "chans \<Rightarrow> chan \<times> chans" where
  "make_chan cs = (length cs, cs @ [False])"

definition is_closed :: "chans \<Rightarrow> chan \<Rightarrow> bool" where
  "is_closed cs c = (c < length cs \<and> cs ! c)"

text \<open>\<^verbatim>\<open>close(c)\<close>: closing the nil channel panics, closing a closed channel panics.\<close>

definition close_chan :: "chan option \<Rightarrow> chans \<Rightarrow> panic + chans" where
  "close_chan c cs =
     (case c of
        None \<Rightarrow> Inl CloseOfNilChannel
      | Some i \<Rightarrow> if is_closed cs i then Inl CloseOfClosedChannel else Inr (cs[i := True]))"

text \<open>
  \<^verbatim>\<open>case <-c:\<close> of a select, for a channel nobody sends on: the receive can proceed
  once the channel is closed; on the nil channel it never proceeds.
\<close>

definition recv_ready :: "chans \<Rightarrow> chan option \<Rightarrow> bool" where
  "recv_ready cs c = (case c of None \<Rightarrow> False | Some i \<Rightarrow> is_closed cs i)"

section \<open>The periodic registrar (src/sd/periodic\_registrar.go)\<close>

text \<open>
  The underlying \<^verbatim>\<open>Registrar\<close> is an interface with two methods that return
  nothing; what the periodic registrar does to it is the sequence of calls it makes.
\<close>

datatype rcall = RegisterCall | DeregisterCall

text \<open>
  A goroutine running \<^verbatim>\<open>p.loop()\<close> is either at the top of the \<^verbatim>\<open>for\<close>, about to
  enter the \<^verbatim>\<open>select\<close> (\<open>AtSelect\<close>); or inside the \<^verbatim>\<open>select\<close>, which has
  evaluated its two channel operands on entry: the value \<^verbatim>\<open>p.quitc\<close> had then, and
  the timer \<^verbatim>\<open>time.After(p.interval)\<close>, kept as the time at which it fires
  (\<open>Blocked\<close>); or it has returned.
\<close>

datatype loop_pc = AtSelect | Blocked "chan option" int | Returned

text \<open>
  The struct has the fields \<open>registrar\<close> (here: the calls made on it so far),
  \<open>interval\<close> and \<open>quitc\<close>. The rest of the record is the world around it: the
  channels made so far, the goroutines started by \<^verbatim>\<open>go p.loop()\<close>, the clock (in the
  unit of \<open>interval\<close>) and what was printed.
\<close>

record periodicRegistrar =
  registrar :: "rcall list"
  interval :: int
  quitc :: "chan option"
  chans :: chans
  loops :: "loop_pc list"
  now :: int
  stdout :: "string list"

definition NewPeriodicRegistrar :: "rcall list \<Rightarrow> int \<Rightarrow> periodicRegistrar" where
  "NewPeriodicRegistrar r i =
     \<lparr>registrar = r, interval = i, quitc = None,
      chans = [], loops = [], now = 0, stdout = []\<rparr>"

definition periodicRegistrar_Register :: "periodicRegistrar \<Rightarrow> periodicRegistrar" where
  "periodicRegistrar_Register p =
     (if quitc p \<noteq> None then p
      else (case make_chan (chans p) of
              (c, cs) \<Rightarrow> p\<lparr>quitc := Some c, chans := cs, loops := loops p @ [AtSelect]\<rparr>))"

definition periodicRegistrar_Deregister :: "periodicRegistrar \<Rightarrow> panic + periodicRegistrar" where
  "periodicRegistrar_Deregister p =
     (case close_chan (quitc p) (chans p) of
        Inl e \<Rightarrow> Inl e
      | Inr cs \<Rightarrow>
          Inr (p\<lparr>chans := cs, quitc := None, registrar := registrar p @ [DeregisterCall]\<rparr>))"

text \<open>
  The steps of goroutine \<open>g\<close> running \<^verbatim>\<open>p.loop()\<close>; \<open>None\<close> when the step cannot
  be taken in this state.
  \<^item> \<open>loop_enter\<close>: enter the \<^verbatim>\<open>select\<close>, reading \<^verbatim>\<open>p.quitc\<close> and starting the
    timer;
  \<^item> \<open>loop_quit\<close>: the case \<^verbatim>\<open><-p.quitc\<close> proceeds and the loop returns;
  \<^item> \<open>loop_timer\<close>: the timer has fired; print, call the underlying
    \<^verbatim>\<open>Register()\<close>, go round the loop.
\<close>

definition loop_enter :: "nat \<Rightarrow> periodicRegistrar \<Rightarrow> periodicRegistrar option" where
  "loop_enter g p =
     (if g < length (loops p) \<and> loops p ! g = AtSelect
      then Some (p\<lparr>loops := (loops p)[g := Blocked (quitc p) (now p + interval p)]\<rparr>)
      else None)"

definition loop_quit :: "nat \<Rightarrow> periodicRegistrar \<Rightarrow> periodicRegistrar option" where
  "loop_quit g p =
     (if g < length (loops p)
      then (case loops p ! g of
              Blocked qc d \<Rightarrow>
                if recv_ready (chans p) qc then Some (p\<lparr>loops := (loops p)[g := Returned]\<rparr>)
                else None
            | _ \<Rightarrow> None)
      else None)"

definition loop_timer :: "nat \<Rightarrow> periodicRegistrar \<Rightarrow> periodicRegistrar option" where
  "loop_timer g p =
     (if g < length (loops p)
      then (case loops p ! g of
              Blocked qc d \<Rightarrow>
                if d \<le> now p
                then Some (p\<lparr>stdout := stdout p @ [''REG''],
                             registrar := registrar p @ [RegisterCall],
                             loops := (loops p)[g := AtSelect]\<rparr>)
                else None
            | _ \<Rightarrow> None)
      else None)"

text \<open>
  What can happen to a periodic registrar: its two methods are called, one of its
  goroutines takes a step, or time passes.
\<close>

datatype pr_event =
  CallRegister | CallDeregister | Enter nat | Quit nat | Timer nat | Advance nat

fun pr_step :: "pr_event \<Rightarrow> periodicRegistrar \<Rightarrow> (panic + periodicRegistrar) option" where
  "pr_step CallRegister p = Some (Inr (periodicRegistrar_Register p))"
| "pr_step CallDeregister p = Some (periodicRegistrar_Deregister p)"
| "pr_step (Enter g) p = map_option Inr (loop_enter g p)"
| "pr_step (Quit g) p = map_option Inr (loop_quit g p)"
| "pr_step (Timer g) p = map_option Inr (loop_timer g p)"
| "pr_step (Advance d) p = Some (Inr (p\<lparr>now := now p + int d\<rparr>))"

fun pr_run :: "pr_event list \<Rightarrow> periodicRegistrar \<Rightarrow> (panic + periodicRegistrar) option" where
  "pr_run [] p = Some (Inr p)"
| "pr_run (e # es) p =
     (case pr_step e p of
        None \<Rightarrow> None
      | Some (Inl x) \<Rightarrow> Some (Inl x)
      | Some (Inr p') \<Rightarrow> pr_run es p')"

section \<open>The logger\<close>

text \<open>
  Modelled from the spec: the package \<^verbatim>\<open>log\<close> (\<^verbatim>\<open>log.Logger\<close>,
  \<^verbatim>\<open>log.NewContext(logger).With(...)\<close>) is not among the sources. The spec has the
  logger as "a structured key-value sink for observability; purely a side channel,
  never consulted for control flow": a logger is the key-value pairs of its context
  and the records written through it so far; a record is the context followed by the
  pairs of the call.
\<close>

type_synonym keyvals = "(string \<times> string) list"

record Logger =
  log_context :: keyvals
  records :: "keyvals list"

definition NewNopLogger :: Logger where
  "NewNopLogger = \<lparr>log_context = [], records = []\<rparr>"

definition Logger_With :: "keyvals \<Rightarrow> Logger \<Rightarrow> Logger" where
  "Logger_With kvs l = l\<lparr>log_context := log_context l @ kvs\<rparr>"

definition Logger_Log :: "keyvals \<Rightarrow> Logger \<Rightarrow> Logger" where
  "Logger_Log kvs l = l\<lparr>records := records l @ [log_context l @ kvs]\<rparr>"

section \<open>The client of package eureka (second part of src/sd/eureka/client\_test.go)\<close>

record Service =
  ID :: string
  Name :: string
  Address :: string
  Port :: int
  Metadata :: "(string \<times> string) list"
  TTL :: int

text \<open>
  The types of the registry library (\<^verbatim>\<open>fargo.Instance\<close>, \<^verbatim>\<open>fargo.Application\<close>,
  \<^verbatim>\<open>fargo.AppUpdate\<close>), with the fields the client sets or reads. A metadata value
  is a string, or the JSON text of a string map, kept as the map it encodes.
  \<open>TTL\<close> is a \<^verbatim>\<open>time.Duration\<close>, a number of nanoseconds.
\<close>

datatype StatusType = UP

datatype metaval = MetaString string | MetaJSON "(string \<times> string) list"

record LeaseInfo =
  RenewalIntervalInSecs :: int
  DurationInSecs :: int

record Instance =
  InstanceID :: string
  App :: string
  HostName :: string
  IPAddr :: string
  VipAddress :: string
  SecureVipAddress :: string
  InstancePort :: int
  Status :: StatusType
  DataCenterInfo :: string
  InstanceLeaseInfo :: LeaseInfo
  InstanceMetadata :: "(string \<times> metaval) list"

record Application =
  Instances :: "Instance list"


text \<open>
  \<^verbatim>\<open>fargoConnection\<close> is an interface: its methods are functions on the state \<open>'k\<close>
  of whatever implements it. \<^verbatim>\<open>GetApp\<close> returns an application or an error.
  \<^verbatim>\<open>ScheduleAppUpdates\<close> returns the channel of updates; what arrives on it is the
  input of \<open>client_WatchEntries\<close> below.
\<close>

record 'k fargoConnection =
  GetApp :: "string \<Rightarrow> 'k \<Rightarrow> (error + Application) \<times> 'k"
  RegisterInstance :: "Instance \<Rightarrow> 'k \<Rightarrow> error option \<times> 'k"
  DeregisterInstance :: "Instance \<Rightarrow> 'k \<Rightarrow> error option \<times> 'k"
  HeartBeatInstance :: "Instance \<Rightarrow> 'k \<Rightarrow> error option \<times> 'k"

text \<open>
  The lease fields are \<^verbatim>\<open>int32(s.TTL.Seconds())\<close>, and \<^verbatim>\<open>Seconds()\<close> of a
  duration \<open>d\<close> is \<^verbatim>\<open>float64(sec) + float64(nsec)/1e9\<close> for \<open>sec = d / Second\<close> and
  \<open>nsec = d % Second\<close>: one division and one addition in binary64, each rounded to the
  nearest value, ties to even. A positive binary64 value is kept as a fraction
  \<open>(n, d)\<close> whose denominator is a power of two. \<open>float64 n d\<close> rounds the positive
  fraction \<open>n / d\<close>: the fraction is doubled until it reaches \<open>2 ^ 52\<close>, rounded to
  an integer, and the doublings are undone in the denominator (the fractions met here
  are below \<open>2 ^ 34\<close>, so there is never anything to halve). It is called for a
  duration that is positive only, as the code does.
\<close>

definition round_half_even :: "int \<Rightarrow> int \<Rightarrow> int" where
  "round_half_even n d =
     (let q = n div d; r = n mod d
      in if 2 * r < d then q
         else if d < 2 * r then q + 1
         else if even q then q else q + 1)"

function significand :: "int \<Rightarrow> int \<Rightarrow> nat \<Rightarrow> int \<times> nat" where
  "significand n d k =
     (if 0 < n \<and> 0 < d \<and> n < 2 ^ 52 * d then significand (2 * n) d (Suc k) else (n, k))"
  by pat_completeness auto
termination
  by (relation "measure (\<lambda>(n, d, k). nat (2 ^ 52 * d - n))") auto

declare significand.simps [simp del]

definition float64 :: "int \<Rightarrow> int \<Rightarrow> int \<times> int" where
  "float64 n d = (case significand n d 0 of (n', k) \<Rightarrow> (round_half_even n' d, 2 ^ k))"

definition Seconds :: "int \<Rightarrow> int \<times> int" where
  "Seconds t =
     (let sec = t div 1000000000; nsec = t mod 1000000000
      in case float64 nsec 1000000000 of (qn, qd) \<Rightarrow> float64 (sec * qd + qn) qd)"

text \<open>
  \<^verbatim>\<open>int32(f)\<close> discards the fraction. For a value that does not fit, the language
  leaves the result to the implementation; the model has what the conversion
  instruction of amd64 gives, the least \<^verbatim>\<open>int32\<close>.
\<close>

definition int32_of_float64 :: "int \<times> int \<Rightarrow> int" where
  "int32_of_float64 f =
     (case f of (n, d) \<Rightarrow> if n div d < 2147483648 then n div d else - 2147483648)"

text \<open>\<^verbatim>\<open>%d\<close> of \<^verbatim>\<open>fmt.Sprintf\<close>: an integer in decimal.\<close>

definition digit :: "nat \<Rightarrow> char" where
  "digit d = ''0123456789'' ! (d mod 10)"

function decimal :: "nat \<Rightarrow> string \<Rightarrow> string" where
  "decimal n acc =
     (if n < 10 then digit n # acc else decimal (n div 10) (digit n # acc))"
  by pat_completeness auto
termination
  by (relation "measure fst") auto

declare decimal.simps [simp del]

definition Sprintf_d :: "int \<Rightarrow> string" where
  "Sprintf_d i = (if 0 \<le> i then decimal (nat i) [] else CHR ''-'' # decimal (nat (- i)) [])"

definition appToEntries :: "Application \<Rightarrow> string list" where
  "appToEntries app =
     map (\<lambda>inst. HostName inst @ '':'' @ Sprintf_d (InstancePort inst))
       (Instances app)"

definition serviceToInstance :: "Service \<Rightarrow> Instance" where
  "serviceToInstance s =
     \<lparr>InstanceID = ID s, App = Name s, HostName = Address s, IPAddr = Address s,
      VipAddress = Address s, SecureVipAddress = Address s, InstancePort = Port s,
      Status = UP, DataCenterInfo = ''MyOwn'',
      InstanceLeaseInfo =
        (if TTL s > 0
         then \<lparr>RenewalIntervalInSecs = int32_of_float64 (Seconds (TTL s)),
               DurationInSecs = int32_of_float64 (Seconds (TTL s))\<rparr>
         else \<lparr>RenewalIntervalInSecs = 0, DurationInSecs = 0\<rparr>),
      InstanceMetadata =
        [(''instanceId'', MetaString (ID s)), (''metadata'', MetaJSON (Metadata s))]\<rparr>"

definition client_GetEntries ::
  "'k fargoConnection \<Rightarrow> string \<Rightarrow> 'k \<Rightarrow> (error + string list) \<times> 'k" where
  "client_GetEntries conn name k =
     (case GetApp conn name k of
        (Inl err, k') \<Rightarrow> (Inl err, k')
      | (Inr app, k') \<Rightarrow> (Inr (appToEntries app), k'))"

definition client_Register ::
  "'k fargoConnection \<Rightarrow> Service \<Rightarrow> 'k \<Rightarrow> error option \<times> 'k" where
  "client_Register conn service k =
     (let inst = serviceToInstance service
      in case client_GetEntries conn (Name service) k of
           (Inr _, k') \<Rightarrow> (None, snd (HeartBeatInstance conn inst k'))
         | (Inl _, k') \<Rightarrow> RegisterInstance conn inst k')"

definition client_Deregister ::
  "'k fargoConnection \<Rightarrow> Service \<Rightarrow> 'k \<Rightarrow> error option \<times> 'k" where
  "client_Deregister conn service k = DeregisterInstance conn (serviceToInstance service) k"





subsection \<open>The connection of the client's tests (src/sd/eureka/client\_test.go)\<close>

record registryEntry =
  entry_instance :: Instance
  heartbeats :: int

text \<open>
  Of \<^verbatim>\<open>mockConn\<close>, the registry; its other field is the channel of updates that
  \<^verbatim>\<open>ScheduleAppUpdates\<close> returns.
\<close>

record mockConn =
  registry :: "registryEntry list"

definition newMockConn :: mockConn where
  "newMockConn = \<lparr>registry = []\<rparr>"

text \<open>\<^verbatim>\<open>mc.entry\<close>: the first entry of that host name with its index; \<open>None\<close> for \<^verbatim>\<open>(-1, nil)\<close>.\<close>

fun entry_from :: "nat \<Rightarrow> registryEntry list \<Rightarrow> Instance \<Rightarrow> (nat \<times> registryEntry) option" where
  "entry_from i [] inst = None"
| "entry_from i (e # es) inst =
     (if HostName (entry_instance e) = HostName inst then Some (i, e) else entry_from (Suc i) es inst)"

definition mockConn_entry :: "mockConn \<Rightarrow> Instance \<Rightarrow> (nat \<times> registryEntry) option" where
  "mockConn_entry mc inst = entry_from 0 (registry mc) inst"

definition mockConn_instances :: "mockConn \<Rightarrow> string \<Rightarrow> Instance list" where
  "mockConn_instances mc name =
     map entry_instance (filter (\<lambda>e. App (entry_instance e) = name) (registry mc))"

definition mockConn_GetApp :: "string \<Rightarrow> mockConn \<Rightarrow> (error + Application) \<times> mockConn" where
  "mockConn_GetApp name mc =
     (if length (mockConn_instances mc name) = 0 then (Inl ''App not registered'', mc)
      else (Inr \<lparr>Instances = mockConn_instances mc name\<rparr>, mc))"

definition mockConn_RegisterInstance :: "Instance \<Rightarrow> mockConn \<Rightarrow> error option \<times> mockConn" where
  "mockConn_RegisterInstance i mc =
     (case mockConn_entry mc i of
        Some _ \<Rightarrow> (Some ''Instance already registerd'', mc)
      | None \<Rightarrow> (None, mc\<lparr>registry := registry mc @ [\<lparr>entry_instance = i, heartbeats = 0\<rparr>]\<rparr>))"

definition mockConn_DeregisterInstance :: "Instance \<Rightarrow> mockConn \<Rightarrow> error option \<times> mockConn" where
  "mockConn_DeregisterInstance i mc =
     (case mockConn_entry mc i of
        None \<Rightarrow> (Some ''Instance not registered'', mc)
      | Some (idx, _) \<Rightarrow>
          (None, mc\<lparr>registry := take idx (registry mc) @ drop (idx + 1) (registry mc)\<rparr>))"

definition mockConn_HeartBeatInstance :: "Instance \<Rightarrow> mockConn \<Rightarrow> error option \<times> mockConn" where
  "mockConn_HeartBeatInstance i mc =
     (case mockConn_entry mc i of
        None \<Rightarrow> (Some ''Instance not registered'', mc)
      | Some (idx, e) \<Rightarrow>
          (None, mc\<lparr>registry := (registry mc)[idx := e\<lparr>heartbeats := heartbeats e + 1\<rparr>]\<rparr>))"

definition mockConn_conn :: "mockConn fargoConnection" where
  "mockConn_conn =
     \<lparr>GetApp = mockConn_GetApp, RegisterInstance = mockConn_RegisterInstance,
      DeregisterInstance = mockConn_DeregisterInstance,
      HeartBeatInstance = mockConn_HeartBeatInstance\<rparr>"

definition testService :: "string \<Rightarrow> string \<Rightarrow> int \<Rightarrow> Service" where
  "testService name addr port =
     \<lparr>ID = ''id'', Name = name, Address = addr, Port = port,
      Metadata = [(''key'', ''value'')], TTL = 987 * 1000000000\<rparr>"

section \<open>The registrar of package eureka (src/unnamed/part\_001)\<close>

text \<open>
  The two methods of the \<^verbatim>\<open>Client\<close> interface that the registrar calls, as functions
  on the state \<open>'c\<close> of the client; \<open>client_Client\<close> is the client above as such a
  value.
\<close>

record 'c Client =
  Client_Register :: "Service \<Rightarrow> 'c \<Rightarrow> error option \<times> 'c"
  Client_Deregister :: "Service \<Rightarrow> 'c \<Rightarrow> error option \<times> 'c"

definition client_Client :: "'k fargoConnection \<Rightarrow> 'k Client" where
  "client_Client conn =
     \<lparr>Client_Register = client_Register conn, Client_Deregister = client_Deregister conn\<rparr>"

record 'c registrar =
  client :: 'c
  service :: Service
  logger :: Logger

definition NewRegistrar :: "Service \<Rightarrow> 'c \<Rightarrow> Logger \<Rightarrow> 'c registrar" where
  "NewRegistrar s c l = \<lparr>client = c, service = s, logger = l\<rparr>"

definition registrar_Register :: "'c Client \<Rightarrow> 'c registrar \<Rightarrow> 'c registrar" where
  "registrar_Register C r =
     (case Client_Register C (service r) (client r) of
        (Some err, c') \<Rightarrow> r\<lparr>client := c', logger := Logger_Log [(''err'', err)] (logger r)\<rparr>
      | (None, c') \<Rightarrow>
          r\<lparr>client := c', logger := Logger_Log [(''action'', ''register'')] (logger r)\<rparr>)"

definition registrar_Deregister :: "'c Client \<Rightarrow> 'c registrar \<Rightarrow> 'c registrar" where
  "registrar_Deregister C r =
     (case Client_Deregister C (service r) (client r) of
        (Some err, c') \<Rightarrow> r\<lparr>client := c', logger := Logger_Log [(''err'', err)] (logger r)\<rparr>
      | (None, c') \<Rightarrow>
          r\<lparr>client := c', logger := Logger_Log [(''action'', ''deregister'')] (logger r)\<rparr>)"

section \<open>The publisher of package static (src/unnamed/part\_008)\<close>

text \<open>
  An endpoint is a value of a type \<open>'e\<close> the publisher never looks into. The factory
  is a \<^verbatim>\<open>loadbalancer.Factory\<close>: an endpoint or an error for an instance. The result
  is the slice handed to \<^verbatim>\<open>fixed.NewPublisher\<close>, with the logger as the calls left it.
\<close>

record 'e Publisher =
  endpoints :: "'e list"

fun NewPublisher_range ::
  "(string \<Rightarrow> error + 'e) \<Rightarrow> string list \<Rightarrow> 'e list \<times> Logger \<Rightarrow> 'e list \<times> Logger" where
  "NewPublisher_range factory [] (es, l) = (es, l)"
| "NewPublisher_range factory (inst # instances) (es, l) =
     (case factory inst of
        Inl err \<Rightarrow>
          NewPublisher_range factory instances
            (es, Logger_Log [(''instance'', inst), (''err'', err)] l)
      | Inr e \<Rightarrow> NewPublisher_range factory instances (es @ [e], l))"

definition NewPublisher ::
  "string list \<Rightarrow> (string \<Rightarrow> error + 'e) \<Rightarrow> Logger \<Rightarrow> 'e Publisher \<times> Logger" where
  "NewPublisher instances factory l =
     (case NewPublisher_range factory instances
             ([], Logger_With [(''component'', ''Fixed Publisher'')] l) of
        (es, l') \<Rightarrow> (\<lparr>endpoints = es\<rparr>, l'))"

section \<open>The endpoint cache\<close>

text \<open>
  Modelled from the spec: the package \<^verbatim>\<open>sd/cache\<close> (\<^verbatim>\<open>cache.New\<close>,
  \<^verbatim>\<open>Update\<close>, \<^verbatim>\<open>Endpoints\<close>) is not among the sources. The spec: the cache is
  created empty; it holds entries \<open>{endpoint, handle?}\<close> keyed by instance address, at
  most one per address; \<^verbatim>\<open>Update(addresses)\<close> computes
  \<open>toAdd = addresses - currentKeys\<close> and \<open>toRemove = currentKeys - addresses\<close>, calls
  the factory for each address to add (on error the address is skipped and the error
  logged), releases the handle of each address to remove (a failure is logged) and
  deletes its entry, and leaves the other entries untouched; \<^verbatim>\<open>Endpoints()\<close> returns
  the endpoints of the current entries. A resource handle is modelled by what releasing
  it returns: nothing, or an error. The cache also keeps, in \<open>cache_updates\<close>, the
  argument of every \<^verbatim>\<open>Update\<close> it has received, in order; nothing of the cache
  depends on it.
\<close>

type_synonym closer = "error option"

record 'e Cache =
  cache_factory :: "string \<Rightarrow> error + 'e \<times> closer option"
  cache_logger :: Logger
  cache_entries :: "(string \<times> 'e \<times> closer option) list"
  cache_released :: "closer list"
  cache_updates :: "string list list"

definition Cache_New :: "(string \<Rightarrow> error + 'e \<times> closer option) \<Rightarrow> Logger \<Rightarrow> 'e Cache" where
  "Cache_New factory l =
     \<lparr>cache_factory = factory, cache_logger = l, cache_entries = [], cache_released = [],
      cache_updates = []\<rparr>"

definition Cache_add :: "string \<Rightarrow> 'e Cache \<Rightarrow> 'e Cache" where
  "Cache_add a c =
     (case cache_factory c a of
        Inl err \<Rightarrow>
          c\<lparr>cache_logger := Logger_Log [(''instance'', a), (''err'', err)] (cache_logger c)\<rparr>
      | Inr (e, h) \<Rightarrow> c\<lparr>cache_entries := cache_entries c @ [(a, e, h)]\<rparr>)"

definition Cache_release_handle :: "closer option \<Rightarrow> 'e Cache \<Rightarrow> 'e Cache" where
  "Cache_release_handle ho c =
     (case ho of
        None \<Rightarrow> c
      | Some h \<Rightarrow>
          (case h of
             None \<Rightarrow> c\<lparr>cache_released := cache_released c @ [h]\<rparr>
           | Some err \<Rightarrow>
               c\<lparr>cache_released := cache_released c @ [h],
                 cache_logger := Logger_Log [(''err'', err)] (cache_logger c)\<rparr>))"

definition Cache_remove :: "string \<Rightarrow> 'e Cache \<Rightarrow> 'e Cache" where
  "Cache_remove a c =
     (case map_of (cache_entries c) a of
        None \<Rightarrow> c
      | Some (e, ho) \<Rightarrow>
          (Cache_release_handle ho c)
            \<lparr>cache_entries := filter (\<lambda>x. fst x \<noteq> a) (cache_entries c)\<rparr>)"

definition Cache_Update :: "string list \<Rightarrow> 'e Cache \<Rightarrow> 'e Cache" where
  "Cache_Update addresses c =
     (let currentKeys = map fst (cache_entries c);
          toAdd = filter (\<lambda>a. a \<notin> set currentKeys) (remdups addresses);
          toRemove = filter (\<lambda>a. a \<notin> set addresses) currentKeys
      in (fold Cache_remove toRemove (fold Cache_add toAdd c))
           \<lparr>cache_updates := cache_updates c @ [addresses]\<rparr>)"

definition Cache_Endpoints :: "'e Cache \<Rightarrow> 'e list" where
  "Cache_Endpoints c = map (\<lambda>x. fst (snd x)) (cache_entries c)"

section \<open>The subscriber (src/sd/eureka/subscriber.go)\<close>

text \<open>
  There is no goroutine yet (\<open>NoGoroutine\<close>); or
  the goroutine running \<^verbatim>\<open>s.loop()\<close> has been started and has not run yet
  (\<open>Spawned\<close>); or it has made \<^verbatim>\<open>entries\<close>, started \<^verbatim>\<open>WatchEntries\<close> and is at the
  top of the \<^verbatim>\<open>for\<close> (\<open>SubAtSelect\<close>); or it is inside the \<^verbatim>\<open>select\<close>, which
  evaluated \<^verbatim>\<open>s.quitc\<close> on entry (\<open>SubBlocked\<close>); or it has returned.
\<close>

datatype sub_pc = NoGoroutine | Spawned | SubAtSelect | SubBlocked "chan option" | SubReturned

text \<open>
  What the constructor and the loop do that others can see, in the order in which they
  do it: a call \<^verbatim>\<open>s.cache.Update(e)\<close>, the statement \<^verbatim>\<open>go s.loop()\<close>, the
  statement \<^verbatim>\<open>go s.client.WatchEntries(...)\<close>.
\<close>

datatype sub_act = ActUpdate "string list" | ActGoLoop | ActGoWatchEntries

text \<open>
  The struct has the fields \<open>name\<close>, \<open>client\<close>, \<open>cache\<close> and \<open>quitc\<close>. The rest is
  the world around it: the channels made so far, the goroutine of the loop, the loop's
  local channel \<^verbatim>\<open>entries\<close>, and the arguments \<^verbatim>\<open>(s.name, entries, s.quitc)\<close> with
  which the loop started \<^verbatim>\<open>WatchEntries\<close>, and the trace of what has been done so
  far. The client is the discovery backend: what it sends on \<^verbatim>\<open>entries\<close> arrives
  as events. \<^verbatim>\<open>NewSubscriber\<close> makes the struct, with a new cache and a new
  channel, then calls \<^verbatim>\<open>s.cache.Update([]string{})\<close>, then runs \<^verbatim>\<open>go s.loop()\<close>;
  the goroutine has not run when it returns.
\<close>

record ('c, 'e) subscriber =
  sub_name :: string
  sub_client :: 'c
  sub_cache :: "'e Cache"
  sub_quitc :: "chan option"
  sub_chans :: chans
  sub_loop :: sub_pc
  sub_entries :: "chan option"
  sub_watch :: "(string \<times> chan \<times> chan option) option"
  sub_trace :: "sub_act list"

definition subscriber_cache_Update ::
  "string list \<Rightarrow> ('c, 'e) subscriber \<Rightarrow> ('c, 'e) subscriber" where
  "subscriber_cache_Update e s =
     s\<lparr>sub_cache := Cache_Update e (sub_cache s), sub_trace := sub_trace s @ [ActUpdate e]\<rparr>"

definition go_loop :: "('c, 'e) subscriber \<Rightarrow> ('c, 'e) subscriber" where
  "go_loop s = s\<lparr>sub_loop := Spawned, sub_trace := sub_trace s @ [ActGoLoop]\<rparr>"

definition NewSubscriber ::
  "string \<Rightarrow> 'c \<Rightarrow> (string \<Rightarrow> error + 'e \<times> closer option) \<Rightarrow> Logger \<Rightarrow> ('c, 'e) subscriber" where
  "NewSubscriber name cl factory l =
     (case make_chan [] of
        (q, cs) \<Rightarrow>
          go_loop
            (subscriber_cache_Update []
               \<lparr>sub_name = name, sub_client = cl, sub_cache = Cache_New factory l,
                sub_quitc = Some q, sub_chans = cs, sub_loop = NoGoroutine,
                sub_entries = None, sub_watch = None, sub_trace = []\<rparr>))"

definition subscriber_Endpoints :: "('c, 'e) subscriber \<Rightarrow> 'e list \<times> error option" where
  "subscriber_Endpoints s = (Cache_Endpoints (sub_cache s), None)"

definition subscriber_Stop :: "('c, 'e) subscriber \<Rightarrow> panic + ('c, 'e) subscriber" where
  "subscriber_Stop s =
     (if sub_quitc s = None then Inr s
      else (case close_chan (sub_quitc s) (sub_chans s) of
              Inl x \<Rightarrow> Inl x
            | Inr cs \<Rightarrow> Inr (s\<lparr>sub_chans := cs, sub_quitc := None\<rparr>)))"

text \<open>
  The steps of the loop's goroutine; \<open>None\<close> when the step cannot be taken.
  \<^item> \<open>sub_start\<close>: make \<^verbatim>\<open>entries\<close>, start \<^verbatim>\<open>WatchEntries\<close> with the value
    \<^verbatim>\<open>s.quitc\<close> has now;
  \<^item> \<open>sub_enter\<close>: enter the \<^verbatim>\<open>select\<close>, reading \<^verbatim>\<open>s.quitc\<close>;
  \<^item> \<open>sub_quit\<close>: the case \<^verbatim>\<open><-s.quitc\<close> proceeds; the loop returns and the deferred
    \<^verbatim>\<open>close(entries)\<close> runs;
  \<^item> \<open>sub_recv e\<close>: the case \<^verbatim>\<open>e := <-entries\<close> proceeds with what the client sent;
    the cache is updated and the loop goes round.
\<close>

definition sub_start :: "('c, 'e) subscriber \<Rightarrow> ('c, 'e) subscriber option" where
  "sub_start s =
     (if sub_loop s = Spawned
      then (case make_chan (sub_chans s) of
              (en, cs) \<Rightarrow>
                Some (s\<lparr>sub_chans := cs, sub_entries := Some en,
                        sub_watch := Some (sub_name s, en, sub_quitc s),
                        sub_trace := sub_trace s @ [ActGoWatchEntries],
                        sub_loop := SubAtSelect\<rparr>))
      else None)"

definition sub_enter :: "('c, 'e) subscriber \<Rightarrow> ('c, 'e) subscriber option" where
  "sub_enter s =
     (if sub_loop s = SubAtSelect then Some (s\<lparr>sub_loop := SubBlocked (sub_quitc s)\<rparr>)
      else None)"

definition sub_quit :: "('c, 'e) subscriber \<Rightarrow> (panic + ('c, 'e) subscriber) option" where
  "sub_quit s =
     (case sub_loop s of
        SubBlocked qc \<Rightarrow>
          if recv_ready (sub_chans s) qc
          then (case close_chan (sub_entries s) (sub_chans s) of
                  Inl x \<Rightarrow> Some (Inl x)
                | Inr cs \<Rightarrow> Some (Inr (s\<lparr>sub_chans := cs, sub_loop := SubReturned\<rparr>)))
          else None
      | _ \<Rightarrow> None)"

definition sub_recv :: "string list \<Rightarrow> ('c, 'e) subscriber \<Rightarrow> ('c, 'e) subscriber option" where
  "sub_recv e s =
     (case sub_loop s of
        SubBlocked qc \<Rightarrow>
          Some ((subscriber_cache_Update e s)\<lparr>sub_loop := SubAtSelect\<rparr>)
      | _ \<Rightarrow> None)"

datatype sub_event = CallStop | LoopStart | LoopEnter | LoopQuit | LoopRecv "string list"

fun sub_step ::
  "sub_event \<Rightarrow> ('c, 'e) subscriber \<Rightarrow> (panic + ('c, 'e) subscriber) option" where
  "sub_step CallStop s = Some (subscriber_Stop s)"
| "sub_step LoopStart s = map_option Inr (sub_start s)"
| "sub_step LoopEnter s = map_option Inr (sub_enter s)"
| "sub_step LoopQuit s = sub_quit s"
| "sub_step (LoopRecv e) s = map_option Inr (sub_recv e s)"

fun sub_run ::
  "sub_event list \<Rightarrow> ('c, 'e) subscriber \<Rightarrow> (panic + ('c, 'e) subscriber) option" where
  "sub_run [] s = Some (Inr s)"
| "sub_run (e # es) s =
     (case sub_step e s of
        None \<Rightarrow> None
      | Some (Inl x) \<Rightarrow> Some (Inl x)
      | Some (Inr s') \<Rightarrow> sub_run es s')"

subsection \<open>The factory of the subscriber's tests (src/sd/eureka/subscriber\_test.go)\<close>

text \<open>
  \<^verbatim>\<open>testFactory\<close> returns an endpoint that answers with the instance it was made
  for, no closer and no error; the endpoint is modelled by that answer.
\<close>

definition testFactory :: "string \<Rightarrow> error + string \<times> closer option" where
  "testFactory inst = Inr (inst, None)"

subsection \<open>A factory that fails for one instance\<close>

definition failingFactory :: "string \<Rightarrow> error + nat" where
  "failingFactory inst = (if inst = ''bad'' then Inl ''no route'' else Inr (length inst))"

section \<open>Invariants\<close>

text \<open>
  While a periodic registrar is running, \<^verbatim>\<open>p.quitc\<close> is a channel that has been made
  and is still open.
\<close>

definition pr_wf :: "periodicRegistrar \<Rightarrow> bool" where
  "pr_wf p =
     (case quitc p of None \<Rightarrow> True | Some c \<Rightarrow> c < length (chans p) \<and> \<not> chans p ! c)"

text \<open>
  As long as \<^verbatim>\<open>Deregister()\<close> has not been called: no channel is closed, there is
  no goroutine before the first \<^verbatim>\<open>Register()\<close> and exactly one after it, and
  after \<open>k\<close> calls of the underlying \<^verbatim>\<open>Register()\<close> at least \<open>k\<close> intervals have
  passed (\<open>k + 1\<close> when the timer of the running \<^verbatim>\<open>select\<close> fires).
\<close>

definition pr_single :: "rcall list \<Rightarrow> int \<Rightarrow> periodicRegistrar \<Rightarrow> nat \<Rightarrow> bool" where
  "pr_single r i p k =
     (registrar p = r @ replicate k RegisterCall \<and> interval p = i
      \<and> True \<notin> set (chans p) \<and> int k * i \<le> now p
      \<and> (case quitc p of
            None \<Rightarrow> loops p = []
          | Some c \<Rightarrow> loops p = [AtSelect]
                      \<or> (\<exists>qc d. loops p = [Blocked qc d] \<and> (int k + 1) * i \<le> d)))"

text \<open>
  While a subscriber has not been stopped, \<^verbatim>\<open>s.quitc\<close> is a channel that has been
  made, is still open, and is not the loop's \<^verbatim>\<open>entries\<close>.
\<close>

definition sub_wf :: "('c, 'e) subscriber \<Rightarrow> bool" where
  "sub_wf s =
     (case sub_quitc s of
        None \<Rightarrow> True
      | Some q \<Rightarrow> q < length (sub_chans s) \<and> \<not> sub_chans s ! q \<and> sub_entries s \<noteq> Some q)"

text \<open>
  A subscriber that has been stopped while its loop was outside the \<^verbatim>\<open>select\<close>, or
  inside a \<^verbatim>\<open>select\<close> that read the nil channel.
\<close>

definition sub_deaf :: "('c, 'e) subscriber \<Rightarrow> bool" where
  "sub_deaf s =
     (sub_quitc s = None \<and> (sub_loop s = SubAtSelect \<or> sub_loop s = SubBlocked None))"

section \<open>Properties of the periodic registrar\<close>

text \<open>
  C1. The claim: calling \<^verbatim>\<open>Deregister()\<close> on a periodic registrar that is stopped
  (never registered, or already deregistered) does not panic. The code closes
  \<^verbatim>\<open>p.quitc\<close> without looking at it: on a new registrar, and on one that has been
  deregistered, \<^verbatim>\<open>p.quitc\<close> is nil and the call panics, before the underlying
  \<^verbatim>\<open>Deregister()\<close> is reached.
\<close>

theorem Deregister_stopped_panics:
  "periodicRegistrar_Deregister (NewPeriodicRegistrar r i) = Inl CloseOfNilChannel
   \<and> pr_run [CallRegister, CallDeregister, CallDeregister] (NewPeriodicRegistrar r i)
       = Some (Inl CloseOfNilChannel)"
  by (simp add: periodicRegistrar_Deregister_def periodicRegistrar_Register_def
      NewPeriodicRegistrar_def close_chan_def make_chan_def is_closed_def)

lemma pr_wf_New: "pr_wf (NewPeriodicRegistrar r i)"
  by (simp add: pr_wf_def NewPeriodicRegistrar_def)

lemma pr_wf_Register: "pr_wf p \<Longrightarrow> pr_wf (periodicRegistrar_Register p)"
  by (auto simp: pr_wf_def periodicRegistrar_Register_def make_chan_def nth_append
      split: option.splits)

lemma pr_wf_Deregister: "periodicRegistrar_Deregister p = Inr p' \<Longrightarrow> pr_wf p'"
  by (auto simp: pr_wf_def periodicRegistrar_Deregister_def split: sum.splits)

lemma pr_wf_step:
  assumes "pr_wf p" and "pr_step e p = Some (Inr p')"
  shows "pr_wf p'"
proof (cases e)
  case CallRegister
  with assms show ?thesis
    using pr_wf_Register by auto
next
  case CallDeregister
  with assms show ?thesis
    using pr_wf_Deregister by auto
next
  case (Enter g)
  with assms show ?thesis
    by (auto simp: pr_wf_def loop_enter_def split: if_splits option.splits)
next
  case (Quit g)
  with assms show ?thesis
    by (auto simp: pr_wf_def loop_quit_def split: if_splits loop_pc.splits option.splits)
next
  case (Timer g)
  with assms show ?thesis
    by (auto simp: pr_wf_def loop_timer_def split: if_splits loop_pc.splits option.splits)
next
  case (Advance d)
  with assms show ?thesis
    by (auto simp: pr_wf_def split: option.splits)
qed

lemma pr_wf_run: "pr_wf p \<Longrightarrow> pr_run evs p = Some (Inr p') \<Longrightarrow> pr_wf p'"
proof (induction evs arbitrary: p)
  case Nil
  then show ?case by simp
next
  case (Cons e es)
  then show ?case
    by (auto split: option.splits sum.splits dest: pr_wf_step)
qed

lemma pr_single_New: "pr_single r i (NewPeriodicRegistrar r i) 0"
  by (simp add: pr_single_def NewPeriodicRegistrar_def)

lemma open_not_ready: "True \<notin> set cs \<Longrightarrow> \<not> recv_ready cs qc"
  by (auto simp: recv_ready_def is_closed_def in_set_conv_nth split: option.splits)

lemma pr_single_step:
  assumes "pr_single r i p k" and "e \<noteq> CallDeregister" and "pr_step e p = Some res"
  shows "\<exists>p' k'. res = Inr p' \<and> pr_single r i p' k'
           \<and> (quitc p' \<noteq> None \<longleftrightarrow> quitc p \<noteq> None \<or> e = CallRegister)"
proof (cases e)
  case CallRegister
  with assms show ?thesis
    by (auto simp: pr_single_def periodicRegistrar_Register_def make_chan_def
        split: option.splits intro!: exI[of _ k])
next
  case CallDeregister
  with assms show ?thesis by simp
next
  case (Enter g)
  with assms show ?thesis
    by (auto simp: pr_single_def loop_enter_def algebra_simps
        split: option.splits if_splits intro!: exI[of _ k])
next
  case (Quit g)
  with assms show ?thesis
    by (auto simp: pr_single_def loop_quit_def open_not_ready
        split: option.splits if_splits loop_pc.splits)
next
  case (Timer g)
  with assms show ?thesis
    by (auto simp: pr_single_def loop_timer_def replicate_append_same algebra_simps
        split: option.splits if_splits loop_pc.splits intro!: exI[of _ "Suc k"])
next
  case (Advance d)
  with assms show ?thesis
    by (auto simp: pr_single_def split: option.splits intro!: exI[of _ k])
qed

lemma pr_single_run:
  assumes "pr_single r i p k" and "CallDeregister \<notin> set evs" and "pr_run evs p = Some res"
  shows "\<exists>p' k'. res = Inr p' \<and> pr_single r i p' k'
           \<and> (quitc p' \<noteq> None \<longleftrightarrow> quitc p \<noteq> None \<or> CallRegister \<in> set evs)"
  using assms
proof (induction evs arbitrary: p k)
  case Nil
  then show ?case by auto
next
  case (Cons e es)
  from Cons.prems obtain res1 where s1: "pr_step e p = Some res1"
    by (auto split: option.splits)
  from Cons.prems have ne: "e \<noteq> CallDeregister" and nes: "CallDeregister \<notin> set es"
    by auto
  from pr_single_step [OF Cons.prems(1) ne s1] obtain p1 k1 where
    p1: "res1 = Inr p1" "pr_single r i p1 k1"
        "quitc p1 \<noteq> None \<longleftrightarrow> quitc p \<noteq> None \<or> e = CallRegister"
    by blast
  from Cons.prems s1 p1 have "pr_run es p1 = Some res" by simp
  from Cons.IH [OF p1(2) nes this] obtain p' k' where
    "res = Inr p'" "pr_single r i p' k'"
    "quitc p' \<noteq> None \<longleftrightarrow> quitc p1 \<noteq> None \<or> CallRegister \<in> set es"
    by blast
  with p1(3) show ?case by auto
qed

text \<open>
  C2. \<^verbatim>\<open>Register()\<close> starts the renewal loop once. In every run of a new periodic
  registrar in which \<^verbatim>\<open>Deregister()\<close> is not called, whatever the number of
  \<^verbatim>\<open>Register()\<close> calls and however the goroutine and the clock interleave with
  them: nothing panics; there is exactly one goroutine once \<^verbatim>\<open>Register()\<close> has
  been called (none before), and it has not returned; the underlying registrar has
  received \<open>k\<close> calls of \<^verbatim>\<open>Register()\<close> and nothing else, with \<open>k\<close> intervals
  elapsed at least (one call per interval, not two); a further \<^verbatim>\<open>Register()\<close>
  changes nothing.
\<close>

theorem Register_starts_one_loop:
  assumes "CallDeregister \<notin> set evs"
      and "pr_run evs (NewPeriodicRegistrar r i) = Some res"
  shows "\<exists>p k. res = Inr p
           \<and> length (loops p) = (if CallRegister \<in> set evs then 1 else 0)
           \<and> Returned \<notin> set (loops p)
           \<and> registrar p = r @ replicate k RegisterCall \<and> int k * i \<le> now p
           \<and> periodicRegistrar_Register (periodicRegistrar_Register p)
               = periodicRegistrar_Register p
           \<and> (if CallRegister \<in> set evs then periodicRegistrar_Register p = p
              else quitc p = None)"
proof -
  from pr_single_run [OF pr_single_New assms] obtain p k where
    p: "res = Inr p" "pr_single r i p k" "quitc p \<noteq> None \<longleftrightarrow> CallRegister \<in> set evs"
    by (auto simp: NewPeriodicRegistrar_def)
  have "length (loops p) = (if CallRegister \<in> set evs then 1 else 0)"
    using p(2,3) by (auto simp: pr_single_def split: option.splits)
  moreover have "Returned \<notin> set (loops p)"
    using p(2) by (auto simp: pr_single_def split: option.splits)
  moreover have "registrar p = r @ replicate k RegisterCall \<and> int k * i \<le> now p"
    using p(2) by (simp add: pr_single_def)
  moreover have "periodicRegistrar_Register (periodicRegistrar_Register p)
      = periodicRegistrar_Register p"
    by (simp add: periodicRegistrar_Register_def make_chan_def)
  moreover have "if CallRegister \<in> set evs then periodicRegistrar_Register p = p
      else quitc p = None"
    using p(3) by (auto simp: periodicRegistrar_Register_def)
  ultimately show ?thesis using p(1) by blast
qed

theorem Register_starts_one_loop_witness:
  "CallDeregister \<notin> set [CallRegister, CallRegister, Enter 0, Advance 7, Timer 0]
   \<and> pr_run [CallRegister, CallRegister, Enter 0, Advance 7, Timer 0]
       (NewPeriodicRegistrar [] 5)
     = Some (Inr \<lparr>registrar = [RegisterCall], interval = 5, quitc = Some 0,
                  chans = [False], loops = [AtSelect], now = 7, stdout = [''REG'']\<rparr>)
   \<and> periodicRegistrar_Register
       \<lparr>registrar = [RegisterCall], interval = 5, quitc = Some 0,
        chans = [False], loops = [AtSelect], now = 7, stdout = [''REG'']\<rparr>
     = \<lparr>registrar = [RegisterCall], interval = 5, quitc = Some 0,
        chans = [False], loops = [AtSelect], now = 7, stdout = [''REG'']\<rparr>"
  using Register_starts_one_loop
          [of "[CallRegister, CallRegister, Enter 0, Advance 7, Timer 0]" "[]" 5
              "Inr \<lparr>registrar = [RegisterCall], interval = 5, quitc = Some 0,
                    chans = [False], loops = [AtSelect], now = 7, stdout = [''REG'']\<rparr>"]
  by (simp add: periodicRegistrar_Register_def NewPeriodicRegistrar_def make_chan_def
      loop_enter_def loop_timer_def)

text \<open>
  C3. The claim: \<^verbatim>\<open>Deregister()\<close> called on a running periodic registrar waits until
  the loop has observed the signal and has ceased, and calls the underlying
  \<^verbatim>\<open>Deregister()\<close> only then. The method has nothing to wait with: it closes the
  channel, resets the field and calls the underlying \<^verbatim>\<open>Deregister()\<close> at once.
  After \<^verbatim>\<open>Register()\<close>, with the loop inside its \<^verbatim>\<open>select\<close>, a call of
  \<^verbatim>\<open>Deregister()\<close> ends with the underlying \<^verbatim>\<open>Deregister()\<close> done and the loop
  still inside its \<^verbatim>\<open>select\<close>.
\<close>

theorem Deregister_does_not_wait_counterexample:
  "pr_run [CallRegister, Enter 0, CallDeregister] (NewPeriodicRegistrar [] 5)
     = Some (Inr \<lparr>registrar = [DeregisterCall], interval = 5, quitc = None,
                  chans = [True], loops = [Blocked (Some 0) 5], now = 0, stdout = []\<rparr>)"
  by (simp add: periodicRegistrar_Deregister_def periodicRegistrar_Register_def
      NewPeriodicRegistrar_def close_chan_def make_chan_def is_closed_def loop_enter_def)

text \<open>
  C3, as the code has it. In every state a new periodic registrar can reach, if it is
  running (\<^verbatim>\<open>p.quitc\<close> is not nil) then \<^verbatim>\<open>Deregister()\<close> does not panic; it closes
  the channel \<^verbatim>\<open>p.quitc\<close>, sets \<^verbatim>\<open>p.quitc\<close> to nil and calls the underlying
  \<^verbatim>\<open>Deregister()\<close> exactly once, and leaves the goroutines where they are, without
  waiting; a loop that is inside its \<^verbatim>\<open>select\<close> on that channel can take the case
  \<^verbatim>\<open><-p.quitc\<close> afterwards and return.
\<close>

theorem Deregister_running_signals_and_calls_once:
  assumes "pr_run evs (NewPeriodicRegistrar r i) = Some (Inr p)" and "quitc p = Some c"
  shows "periodicRegistrar_Deregister p =
           Inr (p\<lparr>chans := (chans p)[c := True], quitc := None,
                  registrar := registrar p @ [DeregisterCall]\<rparr>)
         \<and> is_closed ((chans p)[c := True]) c
         \<and> (\<forall>g d. g < length (loops p) \<and> loops p ! g = Blocked (Some c) d \<longrightarrow>
               (\<exists>p'. pr_run [CallDeregister, Quit g] p = Some (Inr p')
                    \<and> loops p' = (loops p)[g := Returned]))"
proof -
  have "pr_wf p"
    using pr_wf_run [OF pr_wf_New assms(1)] .
  with assms(2) have c: "c < length (chans p)" "\<not> chans p ! c"
    by (simp_all add: pr_wf_def)
  then have d: "periodicRegistrar_Deregister p =
           Inr (p\<lparr>chans := (chans p)[c := True], quitc := None,
                  registrar := registrar p @ [DeregisterCall]\<rparr>)"
    using assms(2) by (simp add: periodicRegistrar_Deregister_def close_chan_def is_closed_def)
  have e: "is_closed ((chans p)[c := True]) c"
    using c by (simp add: is_closed_def)
  show ?thesis
    using d e by (auto simp: loop_quit_def recv_ready_def)
qed

theorem Deregister_running_signals_and_calls_once_witness:
  "pr_run [CallRegister, Enter 0] (NewPeriodicRegistrar [] 5)
     = Some (Inr \<lparr>registrar = [], interval = 5, quitc = Some 0,
                  chans = [False], loops = [Blocked (Some 0) 5], now = 0, stdout = []\<rparr>)
   \<and> periodicRegistrar_Deregister
       \<lparr>registrar = [], interval = 5, quitc = Some 0,
        chans = [False], loops = [Blocked (Some 0) 5], now = 0, stdout = []\<rparr>
     = Inr \<lparr>registrar = [DeregisterCall], interval = 5, quitc = None,
            chans = [True], loops = [Blocked (Some 0) 5], now = 0, stdout = []\<rparr>
   \<and> pr_run [CallDeregister, Quit 0]
       \<lparr>registrar = [], interval = 5, quitc = Some 0,
        chans = [False], loops = [Blocked (Some 0) 5], now = 0, stdout = []\<rparr>
     = Some (Inr \<lparr>registrar = [DeregisterCall], interval = 5, quitc = None,
                  chans = [True], loops = [Returned], now = 0, stdout = []\<rparr>)"
  using Deregister_running_signals_and_calls_once
          [of "[CallRegister, Enter 0]" "[]" 5
              "\<lparr>registrar = [], interval = 5, quitc = Some 0,
                chans = [False], loops = [Blocked (Some 0) 5], now = 0, stdout = []\<rparr>" 0]
  by (simp add: periodicRegistrar_Deregister_def periodicRegistrar_Register_def
      NewPeriodicRegistrar_def close_chan_def make_chan_def is_closed_def loop_enter_def
      loop_quit_def recv_ready_def)

section \<open>Properties of the registry client\<close>

text \<open>
  The lease of a service: whole seconds where the sum is exact enough, one more where
  the sum rounds up to the next integer, and the least \<^verbatim>\<open>int32\<close> from \<open>2 ^ 31\<close>
  seconds on.
\<close>

lemma lease_seconds_examples:
  "int32_of_float64 (Seconds 987000000000) = 987"
  "int32_of_float64 (Seconds 16777215999999999) = 16777215"
  "int32_of_float64 (Seconds 33554432999999999) = 33554433"
  "int32_of_float64 (Seconds 2147483648000000000) = - 2147483648"
  "DurationInSecs (InstanceLeaseInfo (serviceToInstance (testService ''name'' ''address'' 0))) = 987"
  by code_simp+

lemma entry_from_Some:
  "entry_from i es inst = Some (idx, e) \<Longrightarrow>
     i \<le> idx \<and> idx - i < length es \<and> es ! (idx - i) = e
     \<and> HostName (entry_instance e) = HostName inst"
proof (induction es arbitrary: i)
  case Nil
  then show ?case by simp
next
  case (Cons x xs)
  show ?case
  proof (cases "HostName (entry_instance x) = HostName inst")
    case True
    with Cons.prems show ?thesis by auto
  next
    case False
    with Cons.prems have "entry_from (Suc i) xs inst = Some (idx, e)" by simp
    from Cons.IH [OF this] show ?thesis
      by (auto simp: Suc_diff_Suc less_eq_Suc_le)
  qed
qed

lemma mockConn_entry_Some:
  "mockConn_entry mc inst = Some (idx, e) \<Longrightarrow>
     idx < length (registry mc) \<and> registry mc ! idx = e
     \<and> HostName (entry_instance e) = HostName inst"
  using entry_from_Some [of 0 "registry mc" inst idx e] by (simp add: mockConn_entry_def)

text \<open>
  C9. The client's \<^verbatim>\<open>Register\<close> tells an announcement from a renewal by asking the
  registry for the entries of the service's name. For every connection: when that
  request fails, \<^verbatim>\<open>Register\<close> is \<^verbatim>\<open>RegisterInstance\<close> of the service's instance;
  when it succeeds, \<^verbatim>\<open>Register\<close> sends a heartbeat for the instance instead, and
  does not register it. On the connection of the tests: with no entry of that name (and
  none of that host name) the registry gains the instance with no heartbeats; with the
  instance already entered under that name, the registry keeps its entries and the
  instance's heartbeats go up by one.
\<close>

theorem client_Register_announces_then_renews:
  "(\<forall>err k'. GetApp conn (Name s) k = (Inl err, k') \<longrightarrow>
       client_Register conn s k = RegisterInstance conn (serviceToInstance s) k')
   \<and> (\<forall>app k'. GetApp conn (Name s) k = (Inr app, k') \<longrightarrow>
       client_Register conn s k = (None, snd (HeartBeatInstance conn (serviceToInstance s) k')))
   \<and> (mockConn_instances mc (Name s) = [] \<and> mockConn_entry mc (serviceToInstance s) = None \<longrightarrow>
       client_Register mockConn_conn s mc =
         (None, mc\<lparr>registry := registry mc @
                     [\<lparr>entry_instance = serviceToInstance s, heartbeats = 0\<rparr>]\<rparr>))
   \<and> (\<forall>idx e. mockConn_entry mc (serviceToInstance s) = Some (idx, e)
         \<and> App (entry_instance e) = Name s \<longrightarrow>
       client_Register mockConn_conn s mc =
         (None, mc\<lparr>registry := (registry mc)[idx := e\<lparr>heartbeats := heartbeats e + 1\<rparr>]\<rparr>))"
proof -
  have a: "\<forall>err k'. GetApp conn (Name s) k = (Inl err, k') \<longrightarrow>
       client_Register conn s k = RegisterInstance conn (serviceToInstance s) k'"
    by (simp add: client_Register_def client_GetEntries_def)
  have b: "\<forall>app k'. GetApp conn (Name s) k = (Inr app, k') \<longrightarrow>
       client_Register conn s k = (None, snd (HeartBeatInstance conn (serviceToInstance s) k'))"
    by (simp add: client_Register_def client_GetEntries_def)
  have c: "mockConn_instances mc (Name s) = [] \<and> mockConn_entry mc (serviceToInstance s) = None \<longrightarrow>
       client_Register mockConn_conn s mc =
         (None, mc\<lparr>registry := registry mc @
                     [\<lparr>entry_instance = serviceToInstance s, heartbeats = 0\<rparr>]\<rparr>)"
    by (simp add: client_Register_def client_GetEntries_def mockConn_conn_def
        mockConn_GetApp_def mockConn_RegisterInstance_def)
  have d: "\<forall>idx e. mockConn_entry mc (serviceToInstance s) = Some (idx, e)
         \<and> App (entry_instance e) = Name s \<longrightarrow>
       client_Register mockConn_conn s mc =
         (None, mc\<lparr>registry := (registry mc)[idx := e\<lparr>heartbeats := heartbeats e + 1\<rparr>]\<rparr>)"
  proof (intro allI impI, elim conjE)
    fix idx e
    assume en: "mockConn_entry mc (serviceToInstance s) = Some (idx, e)"
      and app: "App (entry_instance e) = Name s"
    from mockConn_entry_Some [OF en] have "e \<in> set (registry mc)"
      by (auto simp: in_set_conv_nth)
    with app have "mockConn_instances mc (Name s) \<noteq> []"
      by (auto simp: mockConn_instances_def filter_empty_conv)
    with en show "client_Register mockConn_conn s mc =
         (None, mc\<lparr>registry := (registry mc)[idx := e\<lparr>heartbeats := heartbeats e + 1\<rparr>]\<rparr>)"
      by (simp add: client_Register_def client_GetEntries_def mockConn_conn_def
          mockConn_GetApp_def mockConn_HeartBeatInstance_def)
  qed
  from a b c d show ?thesis by blast
qed

text \<open>\<^verbatim>\<open>TestRegister\<close>: the initial register, then the subsequent one.\<close>

theorem client_Register_announces_then_renews_witness:
  "client_Register mockConn_conn (testService ''name'' ''address'' 0) newMockConn =
     (None, \<lparr>registry = [\<lparr>entry_instance = serviceToInstance (testService ''name'' ''address'' 0),
                            heartbeats = 0\<rparr>]\<rparr>)
   \<and> client_Register mockConn_conn (testService ''name'' ''address'' 0)
       \<lparr>registry = [\<lparr>entry_instance = serviceToInstance (testService ''name'' ''address'' 0),
                      heartbeats = 0\<rparr>]\<rparr> =
     (None, \<lparr>registry = [\<lparr>entry_instance = serviceToInstance (testService ''name'' ''address'' 0),
                            heartbeats = 1\<rparr>]\<rparr>)"
  using client_Register_announces_then_renews
          [of mockConn_conn "testService ''name'' ''address'' 0" newMockConn newMockConn]
        client_Register_announces_then_renews
          [of mockConn_conn "testService ''name'' ''address'' 0" newMockConn
              "\<lparr>registry = [\<lparr>entry_instance = serviceToInstance (testService ''name'' ''address'' 0),
                      heartbeats = 0\<rparr>]\<rparr>"]
  by (simp add: newMockConn_def mockConn_instances_def mockConn_entry_def
      serviceToInstance_def testService_def)





section \<open>Properties of the registrar\<close>

text \<open>
  C5. The registrar's \<^verbatim>\<open>Register()\<close> and \<^verbatim>\<open>Deregister()\<close> return nothing: their
  result is the registrar itself, with the client as the call left it and one more
  record in the log. Whatever the client's call returns, that record is the pair
  \<open>err\<close> and the error when the call failed, and the pair \<open>action\<close> and
  \<open>register\<close> (or \<open>deregister\<close>) when it succeeded; the service is unchanged.
\<close>

theorem registrar_fire_and_forget:
  "registrar_Register C r =
     r\<lparr>client := snd (Client_Register C (service r) (client r)),
       logger := Logger_Log
         (case fst (Client_Register C (service r) (client r)) of
            Some err \<Rightarrow> [(''err'', err)] | None \<Rightarrow> [(''action'', ''register'')]) (logger r)\<rparr>
   \<and> registrar_Deregister C r =
     r\<lparr>client := snd (Client_Deregister C (service r) (client r)),
       logger := Logger_Log
         (case fst (Client_Deregister C (service r) (client r)) of
            Some err \<Rightarrow> [(''err'', err)] | None \<Rightarrow> [(''action'', ''deregister'')]) (logger r)\<rparr>"
  by (simp add: registrar_Register_def registrar_Deregister_def split: prod.splits option.splits)

text \<open>
  On the connection of the tests: registering a new service succeeds and is logged;
  deregistering a service that is not registered fails, and the failure is logged.
\<close>

theorem registrar_fire_and_forget_witness:
  "registrar_Register (client_Client mockConn_conn)
     (NewRegistrar (testService ''name'' ''address'' 0) newMockConn NewNopLogger)
   = \<lparr>client = \<lparr>registry = [\<lparr>entry_instance = serviceToInstance (testService ''name'' ''address'' 0),
                               heartbeats = 0\<rparr>]\<rparr>,
      service = testService ''name'' ''address'' 0,
      logger = \<lparr>log_context = [], records = [[(''action'', ''register'')]]\<rparr>\<rparr>
   \<and> registrar_Deregister (client_Client mockConn_conn)
     (NewRegistrar (testService ''name'' ''address'' 0) newMockConn NewNopLogger)
   = \<lparr>client = \<lparr>registry = []\<rparr>,
      service = testService ''name'' ''address'' 0,
      logger = \<lparr>log_context = [], records = [[(''err'', ''Instance not registered'')]]\<rparr>\<rparr>"
  using registrar_fire_and_forget [of "client_Client mockConn_conn"
          "NewRegistrar (testService ''name'' ''address'' 0) newMockConn NewNopLogger"]
  by (simp add: client_Client_def NewRegistrar_def newMockConn_def NewNopLogger_def
      Logger_Log_def client_Register_def client_Deregister_def client_GetEntries_def
      mockConn_conn_def mockConn_GetApp_def mockConn_RegisterInstance_def
      mockConn_DeregisterInstance_def mockConn_instances_def mockConn_entry_def)

section \<open>Properties of the static publisher\<close>

lemma NewPublisher_range_eq:
  "NewPublisher_range f is (es, l) =
     (es @ [e. i \<leftarrow> is, Inr e \<leftarrow> [f i]],
      l\<lparr>records := records l @
          map (\<lambda>p. log_context l @ [(''instance'', fst p), (''err'', snd p)])
            [(i, err). i \<leftarrow> is, Inl err \<leftarrow> [f i]]\<rparr>)"
proof (induction "is" arbitrary: es l)
  case Nil
  then show ?case by simp
next
  case (Cons i "is")
  show ?case
  proof (cases "f i")
    case (Inl err)
    then show ?thesis
      by (simp add: Cons.IH Logger_Log_def)
  next
    case (Inr e)
    then show ?thesis
      by (simp add: Cons.IH)
  qed
qed

text \<open>
  C7. A factory error for one instance never stops the batch. The endpoints of
  \<^verbatim>\<open>NewPublisher\<close> are those the factory returned, one for each instance it
  succeeded on, in the order of the instances; each instance it failed on is skipped
  and logged with its error, and nothing else is logged. So every instance of the
  batch for which the factory succeeds has its endpoint in the result, whatever
  happened to the others.
\<close>

theorem NewPublisher_skips_failed_instances:
  "endpoints (fst (NewPublisher is f l)) = [e. i \<leftarrow> is, Inr e \<leftarrow> [f i]]
   \<and> records (snd (NewPublisher is f l)) =
       records l @
       map (\<lambda>p. log_context l @
                 [(''component'', ''Fixed Publisher''), (''instance'', fst p), (''err'', snd p)])
         [(i, err). i \<leftarrow> is, Inl err \<leftarrow> [f i]]
   \<and> (\<forall>i e. i \<in> set is \<and> f i = Inr e \<longrightarrow> e \<in> set (endpoints (fst (NewPublisher is f l))))"
proof -
  have a: "endpoints (fst (NewPublisher is f l)) = [e. i \<leftarrow> is, Inr e \<leftarrow> [f i]]"
    by (simp add: NewPublisher_def NewPublisher_range_eq)
  have b: "records (snd (NewPublisher is f l)) =
       records l @
       map (\<lambda>p. log_context l @
                 [(''component'', ''Fixed Publisher''), (''instance'', fst p), (''err'', snd p)])
         [(i, err). i \<leftarrow> is, Inl err \<leftarrow> [f i]]"
    by (simp add: NewPublisher_def NewPublisher_range_eq Logger_With_def)
  have c: "\<forall>i e. i \<in> set is \<and> f i = Inr e \<longrightarrow> e \<in> set (endpoints (fst (NewPublisher is f l)))"
    unfolding a by force
  from a b c show ?thesis by blast
qed

theorem NewPublisher_skips_failed_instances_witness:
  "endpoints (fst (NewPublisher [''a'', ''bad'', ''ccc''] failingFactory NewNopLogger)) = [1, 3]
   \<and> records (snd (NewPublisher [''a'', ''bad'', ''ccc''] failingFactory NewNopLogger)) =
       [[(''component'', ''Fixed Publisher''), (''instance'', ''bad''), (''err'', ''no route'')]]
   \<and> 3 \<in> set (endpoints (fst (NewPublisher [''a'', ''bad'', ''ccc''] failingFactory NewNopLogger)))"
  using NewPublisher_skips_failed_instances [of "[''a'', ''bad'', ''ccc'']" failingFactory NewNopLogger]
  by (simp add: failingFactory_def NewNopLogger_def)

section \<open>Properties of the subscriber\<close>

lemma Cache_release_handle_entries:
  "cache_entries (Cache_release_handle ho c) = cache_entries c"
  by (simp add: Cache_release_handle_def split: option.splits)

lemma Cache_remove_entries:
  "cache_entries (Cache_remove a c) = filter (\<lambda>x. fst x \<noteq> a) (cache_entries c)"
proof (cases "map_of (cache_entries c) a")
  case None
  then have "a \<notin> fst ` set (cache_entries c)"
    by (simp add: map_of_eq_None_iff)
  then have "filter (\<lambda>x. fst x \<noteq> a) (cache_entries c) = cache_entries c"
    by (auto simp: filter_id_conv)
  with None show ?thesis by (simp add: Cache_remove_def)
next
  case (Some v)
  then show ?thesis by (cases v) (simp add: Cache_remove_def Cache_release_handle_entries)
qed

lemma fold_Cache_remove_entries:
  "cache_entries (fold Cache_remove ks c) = filter (\<lambda>x. fst x \<notin> set ks) (cache_entries c)"
proof (induction ks arbitrary: c)
  case Nil
  then show ?case by simp
next
  case (Cons k ks)
  show ?case
    by (simp add: Cons.IH Cache_remove_entries conj_commute)
qed

lemma Cache_Update_Nil_empty: "Cache_Endpoints (Cache_Update [] c) = []"
  by (simp add: Cache_Update_def Cache_Endpoints_def fold_Cache_remove_entries filter_empty_conv)

text \<open>
  When the loop receives the empty list, as \<^verbatim>\<open>WatchEntries\<close> sends it for an
  update with an error, the subscriber has no endpoints left.
\<close>

lemma sub_recv_Nil_erases:
  "sub_recv [] s = Some s' \<Longrightarrow> subscriber_Endpoints s' = ([], None)"
  by (auto simp: sub_recv_def subscriber_cache_Update_def subscriber_Endpoints_def
      Cache_Update_Nil_empty split: sub_pc.splits)

text \<open>
  C6. \<^verbatim>\<open>Endpoints()\<close> of a subscriber is the snapshot of its cache with a nil error,
  in every state, and \<^verbatim>\<open>Stop()\<close> does not change what it returns. It touches nothing
  but the cache: no channel, no client.
\<close>

theorem Endpoints_is_the_cache_snapshot:
  "subscriber_Endpoints s = (Cache_Endpoints (sub_cache s), None)
   \<and> (\<forall>s'. subscriber_Stop s = Inr s' \<longrightarrow> subscriber_Endpoints s' = subscriber_Endpoints s)"
  by (auto simp: subscriber_Endpoints_def subscriber_Stop_def split: if_splits sum.splits)

text \<open>A new subscriber, with no endpoints, before and after \<^verbatim>\<open>Stop()\<close>.\<close>

theorem Endpoints_is_the_cache_snapshot_witness:
  "subscriber_Endpoints (NewSubscriber ''foo.bar.baz'' () testFactory NewNopLogger) = ([], None)
   \<and> map_sum id subscriber_Endpoints
       (subscriber_Stop (NewSubscriber ''foo.bar.baz'' () testFactory NewNopLogger))
     = Inr ([], None)"
  using Endpoints_is_the_cache_snapshot
          [of "NewSubscriber ''foo.bar.baz'' () testFactory NewNopLogger"]
  by (simp add: NewSubscriber_def go_loop_def subscriber_cache_Update_def make_chan_def
      subscriber_Stop_def close_chan_def is_closed_def
      subscriber_Endpoints_def Cache_Update_def Cache_New_def Cache_Endpoints_def)

lemma sub_step_cache:
  "sub_step e s = Some (Inr s') \<Longrightarrow> \<forall>x. e \<noteq> LoopRecv x \<Longrightarrow> sub_cache s' = sub_cache s"
  by (cases e)
     (auto simp: subscriber_Stop_def sub_start_def sub_enter_def sub_quit_def make_chan_def
        split: if_splits sum.splits sub_pc.splits)

lemma sub_run_cache:
  "sub_run evs s = Some (Inr s') \<Longrightarrow> \<forall>x. LoopRecv x \<notin> set evs \<Longrightarrow> sub_cache s' = sub_cache s"
proof (induction evs arbitrary: s)
  case Nil
  then show ?case by simp
next
  case (Cons e es)
  from Cons.prems(1) obtain s1 where
    s1: "sub_step e s = Some (Inr s1)" "sub_run es s1 = Some (Inr s')"
    by (auto split: option.splits sum.splits)
  from Cons.prems(2) have "\<forall>x. e \<noteq> LoopRecv x" "\<forall>x. LoopRecv x \<notin> set es"
    by auto
  with s1 Cons.IH sub_step_cache show ?case by metis
qed

lemma cache_updates_Update: "cache_updates (Cache_Update e c) = cache_updates c @ [e]"
  by (simp add: Cache_Update_def Let_def)

text \<open>
  A step of the subscriber adds to the calls its cache has received the list the loop
  received, if it is that step, and nothing otherwise; and it only adds to the trace.
\<close>

lemma sub_step_updates:
  assumes "sub_step e s = Some (Inr s')"
  shows "cache_updates (sub_cache s') = cache_updates (sub_cache s) @ [x. LoopRecv x \<leftarrow> [e]]
         \<and> (\<exists>acts. sub_trace s' = sub_trace s @ acts)"
proof (cases e)
  case CallStop
  with assms show ?thesis
    by (auto simp: subscriber_Stop_def split: if_splits sum.splits)
next
  case LoopStart
  with assms show ?thesis
    by (auto simp: sub_start_def make_chan_def split: if_splits)
next
  case LoopEnter
  with assms show ?thesis
    by (auto simp: sub_enter_def split: if_splits)
next
  case LoopQuit
  with assms show ?thesis
    by (auto simp: sub_quit_def split: if_splits sum.splits sub_pc.splits)
next
  case (LoopRecv x)
  with assms show ?thesis
    by (auto simp: sub_recv_def subscriber_cache_Update_def cache_updates_Update
        split: sub_pc.splits)
qed

lemma sub_run_updates:
  "sub_run evs s = Some (Inr s') \<Longrightarrow>
     cache_updates (sub_cache s') = cache_updates (sub_cache s) @ [x. LoopRecv x \<leftarrow> evs]
     \<and> (\<exists>acts. sub_trace s' = sub_trace s @ acts)"
proof (induction evs arbitrary: s)
  case Nil
  then show ?case by simp
next
  case (Cons e es)
  from Cons.prems obtain s1 where
    s1: "sub_step e s = Some (Inr s1)" "sub_run es s1 = Some (Inr s')"
    by (auto split: option.splits sum.splits)
  from sub_step_updates [OF s1(1)] obtain a1 where
    u1: "cache_updates (sub_cache s1) = cache_updates (sub_cache s) @ [x. LoopRecv x \<leftarrow> [e]]"
    and t1: "sub_trace s1 = sub_trace s @ a1"
    by blast
  from Cons.IH [OF s1(2)] obtain a2 where
    u2: "cache_updates (sub_cache s') = cache_updates (sub_cache s1) @ [x. LoopRecv x \<leftarrow> es]"
    and t2: "sub_trace s' = sub_trace s1 @ a2"
    by blast
  have "cache_updates (sub_cache s') = cache_updates (sub_cache s) @ [x. LoopRecv x \<leftarrow> e # es]"
    unfolding u2 u1 by (cases e) simp_all
  moreover have "sub_trace s' = sub_trace s @ (a1 @ a2)"
    unfolding t2 t1 by simp
  ultimately show ?case by blast
qed

text \<open>
  C8. \<^verbatim>\<open>NewSubscriber\<close> calls \<^verbatim>\<open>Update\<close> of the new cache with the empty list and
  then starts the goroutine of the loop, in that order and nothing else; the goroutine
  has not run when the constructor returns, and the empty list is the one call the
  cache has received. An \<^verbatim>\<open>Update\<close> with the empty list leaves a cache, whatever it
  held, with no endpoints, so \<^verbatim>\<open>Endpoints()\<close> of the new subscriber is the empty
  list with a nil error. Whatever the loop and \<^verbatim>\<open>Stop()\<close> do afterwards: the calls
  the cache has received are the empty list first and then the lists the loop
  received from the client, in their order; the trace still begins with the empty
  update and the start of the loop; and \<^verbatim>\<open>Endpoints()\<close> stays empty until the loop
  receives a list.
\<close>

theorem NewSubscriber_starts_empty:
  "sub_trace (NewSubscriber n cl f l) = [ActUpdate [], ActGoLoop]
   \<and> sub_cache (NewSubscriber n cl f l) = Cache_Update [] (Cache_New f l)
   \<and> cache_updates (sub_cache (NewSubscriber n cl f l)) = [[]]
   \<and> sub_loop (NewSubscriber n cl f l) = Spawned
   \<and> (\<forall>c :: 'e Cache. Cache_Endpoints (Cache_Update [] c) = [])
   \<and> subscriber_Endpoints (NewSubscriber n cl (f :: string \<Rightarrow> error + 'e \<times> closer option) l)
       = ([], None)
   \<and> (\<forall>evs s'. sub_run evs (NewSubscriber n cl f l) = Some (Inr s') \<longrightarrow>
         cache_updates (sub_cache s') = [] # [x. LoopRecv x \<leftarrow> evs]
         \<and> take 2 (sub_trace s') = [ActUpdate [], ActGoLoop]
         \<and> ((\<forall>x. LoopRecv x \<notin> set evs) \<longrightarrow> subscriber_Endpoints s' = ([], None)))"
proof -
  have t: "sub_trace (NewSubscriber n cl f l) = [ActUpdate [], ActGoLoop]"
    and a: "sub_cache (NewSubscriber n cl f l) = Cache_Update [] (Cache_New f l)"
    and b: "sub_loop (NewSubscriber n cl f l) = Spawned"
    by (simp_all add: NewSubscriber_def go_loop_def subscriber_cache_Update_def make_chan_def)
  have u: "cache_updates (sub_cache (NewSubscriber n cl f l)) = [[]]"
    unfolding a by (simp add: cache_updates_Update Cache_New_def)
  have e: "\<forall>c :: 'e Cache. Cache_Endpoints (Cache_Update [] c) = []"
    by (simp add: Cache_Update_Nil_empty)
  have c: "subscriber_Endpoints (NewSubscriber n cl f l) = ([], None)"
    by (simp add: subscriber_Endpoints_def a Cache_Update_Nil_empty)
  have d: "\<forall>evs s'. sub_run evs (NewSubscriber n cl f l) = Some (Inr s') \<longrightarrow>
         cache_updates (sub_cache s') = [] # [x. LoopRecv x \<leftarrow> evs]
         \<and> take 2 (sub_trace s') = [ActUpdate [], ActGoLoop]
         \<and> ((\<forall>x. LoopRecv x \<notin> set evs) \<longrightarrow> subscriber_Endpoints s' = ([], None))"
  proof (intro allI impI)
    fix evs s'
    assume r: "sub_run evs (NewSubscriber n cl f l) = Some (Inr s')"
    from sub_run_updates [OF r] obtain acts where
      "cache_updates (sub_cache s') =
         cache_updates (sub_cache (NewSubscriber n cl f l)) @ [x. LoopRecv x \<leftarrow> evs]"
      and "sub_trace s' = sub_trace (NewSubscriber n cl f l) @ acts"
      by blast
    then have 1: "cache_updates (sub_cache s') = [] # [x. LoopRecv x \<leftarrow> evs]"
      and 2: "take 2 (sub_trace s') = [ActUpdate [], ActGoLoop]"
      by (simp_all add: u t)
    have 3: "(\<forall>x. LoopRecv x \<notin> set evs) \<longrightarrow> subscriber_Endpoints s' = ([], None)"
      using sub_run_cache [OF r] c by (auto simp: subscriber_Endpoints_def)
    from 1 2 3 show "cache_updates (sub_cache s') = [] # [x. LoopRecv x \<leftarrow> evs]
         \<and> take 2 (sub_trace s') = [ActUpdate [], ActGoLoop]
         \<and> ((\<forall>x. LoopRecv x \<notin> set evs) \<longrightarrow> subscriber_Endpoints s' = ([], None))"
      by blast
  qed
  from t a u b e c d show ?thesis by blast
qed

text \<open>
  \<^verbatim>\<open>TestSubscriber\<close>: the subscriber starts empty, with the empty update done and
  the loop started; it stays empty while the loop starts; it has two endpoints once
  the client has sent two instances, after the updates with the empty list and with
  those two.
\<close>

theorem NewSubscriber_starts_empty_witness:
  "sub_trace (NewSubscriber ''foo.bar.baz'' () testFactory NewNopLogger) = [ActUpdate [], ActGoLoop]
   \<and> cache_updates (sub_cache (NewSubscriber ''foo.bar.baz'' () testFactory NewNopLogger)) = [[]]
   \<and> subscriber_Endpoints (NewSubscriber ''foo.bar.baz'' () testFactory NewNopLogger) = ([], None)
   \<and> map_option (map_sum id subscriber_Endpoints)
       (sub_run [LoopStart, LoopEnter]
          (NewSubscriber ''foo.bar.baz'' () testFactory NewNopLogger))
     = Some (Inr ([], None))
   \<and> map_option (map_sum id subscriber_Endpoints)
       (sub_run [LoopStart, LoopEnter, LoopRecv [''instance-1'', ''instance-2'']]
          (NewSubscriber ''foo.bar.baz'' () testFactory NewNopLogger))
     = Some (Inr ([''instance-1'', ''instance-2''], None))
   \<and> map_option (map_sum id (\<lambda>s. (cache_updates (sub_cache s), sub_trace s)))
       (sub_run [LoopStart, LoopEnter, LoopRecv [''instance-1'', ''instance-2'']]
          (NewSubscriber ''foo.bar.baz'' () testFactory NewNopLogger))
     = Some (Inr ([[], [''instance-1'', ''instance-2'']],
                  [ActUpdate [], ActGoLoop, ActGoWatchEntries,
                   ActUpdate [''instance-1'', ''instance-2'']]))"
  using NewSubscriber_starts_empty [of "''foo.bar.baz''" "()" testFactory NewNopLogger]
  by (simp add: NewSubscriber_def go_loop_def subscriber_cache_Update_def make_chan_def
      sub_start_def sub_enter_def sub_recv_def
      subscriber_Endpoints_def Cache_Update_def Cache_New_def Cache_Endpoints_def
      Cache_add_def testFactory_def)

lemma sub_wf_New: "sub_wf (NewSubscriber n cl f l)"
  by (simp add: sub_wf_def NewSubscriber_def go_loop_def subscriber_cache_Update_def
      make_chan_def)

lemma sub_wf_step:
  assumes "sub_wf s" and "sub_step e s = Some (Inr s')"
  shows "sub_wf s'"
proof (cases e)
  case CallStop
  with assms show ?thesis
    by (auto simp: sub_wf_def subscriber_Stop_def split: if_splits sum.splits)
next
  case LoopStart
  with assms show ?thesis
    by (auto simp: sub_wf_def sub_start_def make_chan_def nth_append
        split: if_splits option.splits)
next
  case LoopEnter
  with assms show ?thesis
    by (auto simp: sub_wf_def sub_enter_def split: if_splits option.splits)
next
  case LoopQuit
  with assms show ?thesis
    by (auto simp: sub_wf_def sub_quit_def close_chan_def
        split: if_splits option.splits sub_pc.splits)
next
  case (LoopRecv x)
  with assms show ?thesis
    by (auto simp: sub_wf_def sub_recv_def subscriber_cache_Update_def
        split: if_splits option.splits sub_pc.splits)
qed

lemma sub_wf_run: "sub_wf s \<Longrightarrow> sub_run evs s = Some (Inr s') \<Longrightarrow> sub_wf s'"
proof (induction evs arbitrary: s)
  case Nil
  then show ?case by simp
next
  case (Cons e es)
  then show ?case
    by (auto split: option.splits sum.splits dest: sub_wf_step)
qed

text \<open>
  What holds of \<^verbatim>\<open>Stop()\<close> in every state a new subscriber can reach: it does not
  panic, it closes the channel \<^verbatim>\<open>s.quitc\<close> held, and a second call changes nothing.
\<close>

lemma subscriber_Stop_twice:
  assumes "sub_run evs (NewSubscriber n cl f l) = Some (Inr s)"
  shows "\<exists>s'. subscriber_Stop s = Inr s' \<and> subscriber_Stop s' = Inr s' \<and> sub_quitc s' = None
           \<and> (\<forall>q. sub_quitc s = Some q \<longrightarrow> is_closed (sub_chans s') q)"
proof -
  have "sub_wf s"
    using sub_wf_run [OF sub_wf_New assms] .
  then show ?thesis
    by (auto simp: sub_wf_def subscriber_Stop_def close_chan_def is_closed_def
        split: option.splits)
qed

lemma sub_deaf_step:
  assumes "sub_deaf s" and "sub_step e s = Some res"
  shows "\<exists>s'. res = Inr s' \<and> sub_deaf s'"
proof (cases e)
  case CallStop
  with assms show ?thesis
    by (auto simp: sub_deaf_def subscriber_Stop_def)
next
  case LoopStart
  with assms show ?thesis
    by (auto simp: sub_deaf_def sub_start_def split: if_splits)
next
  case LoopEnter
  with assms show ?thesis
    by (auto simp: sub_deaf_def sub_enter_def split: if_splits)
next
  case LoopQuit
  with assms show ?thesis
    by (auto simp: sub_deaf_def sub_quit_def recv_ready_def split: if_splits)
next
  case (LoopRecv x)
  with assms show ?thesis
    by (auto simp: sub_deaf_def sub_recv_def subscriber_cache_Update_def
        split: if_splits sub_pc.splits)
qed

lemma sub_deaf_run:
  "sub_deaf s \<Longrightarrow> sub_run evs s = Some res \<Longrightarrow> \<exists>s'. res = Inr s' \<and> sub_deaf s'"
proof (induction evs arbitrary: s)
  case Nil
  then show ?case by auto
next
  case (Cons e es)
  from Cons.prems(2) obtain r1 where r1: "sub_step e s = Some r1"
    by (auto split: option.splits)
  from sub_deaf_step [OF Cons.prems(1) r1] obtain s1 where s1: "r1 = Inr s1" "sub_deaf s1"
    by blast
  with Cons.prems(2) r1 have "sub_run es s1 = Some res" by simp
  from Cons.IH [OF s1(2) this] show ?case .
qed

text \<open>
  C4. The claim: after the first \<^verbatim>\<open>Stop()\<close> the background loop is signalled and
  exits. \<^verbatim>\<open>Stop()\<close> closes the channel and then sets \<^verbatim>\<open>s.quitc\<close> to nil, and
  the loop reads \<^verbatim>\<open>s.quitc\<close> anew each time it enters its \<^verbatim>\<open>select\<close>. When
  \<^verbatim>\<open>Stop()\<close> runs before the goroutine has started, the loop starts
  \<^verbatim>\<open>WatchEntries\<close> with a nil \<^verbatim>\<open>done\<close> and enters its \<^verbatim>\<open>select\<close> on the nil
  channel; when \<^verbatim>\<open>Stop()\<close> runs while the loop is updating the cache with a list
  it received, the loop enters its next \<^verbatim>\<open>select\<close> on the nil channel. In both
  runs the channel has been closed, and whatever happens afterwards nothing panics and
  the loop never returns.
\<close>

theorem Stop_outside_select_loop_never_exits:
  "(\<exists>bad. sub_run [CallStop, LoopStart, LoopEnter] (NewSubscriber n cl f l) = Some (Inr bad)
        \<and> sub_loop bad = SubBlocked None \<and> sub_watch bad = Some (n, 1, None)
        \<and> is_closed (sub_chans bad) 0
        \<and> (\<forall>evs res. sub_run evs bad = Some res \<longrightarrow>
              (\<exists>s'. res = Inr s' \<and> sub_loop s' \<noteq> SubReturned)))
   \<and> (\<exists>bad. sub_run [LoopStart, LoopEnter, LoopRecv e, CallStop, LoopEnter]
               (NewSubscriber n cl f l) = Some (Inr bad)
        \<and> sub_loop bad = SubBlocked None \<and> sub_watch bad = Some (n, 1, Some 0)
        \<and> is_closed (sub_chans bad) 0
        \<and> (\<forall>evs res. sub_run evs bad = Some res \<longrightarrow>
              (\<exists>s'. res = Inr s' \<and> sub_loop s' \<noteq> SubReturned)))"
proof -
  have never: "\<forall>evs res. sub_run evs bad = Some res \<longrightarrow>
              (\<exists>s'. res = Inr s' \<and> sub_loop s' \<noteq> SubReturned)"
    if "sub_deaf bad" for bad :: "('a, 'b) subscriber"
    using sub_deaf_run [OF that] by (fastforce simp: sub_deaf_def)
  obtain b1 where b1:
    "sub_run [CallStop, LoopStart, LoopEnter] (NewSubscriber n cl f l) = Some (Inr b1)"
    "sub_loop b1 = SubBlocked None" "sub_watch b1 = Some (n, 1, None)"
    "is_closed (sub_chans b1) 0" "sub_deaf b1"
    by (simp add: NewSubscriber_def go_loop_def subscriber_cache_Update_def make_chan_def
        subscriber_Stop_def close_chan_def is_closed_def sub_start_def sub_enter_def
        sub_deaf_def)
  obtain b2 where b2:
    "sub_run [LoopStart, LoopEnter, LoopRecv e, CallStop, LoopEnter]
       (NewSubscriber n cl f l) = Some (Inr b2)"
    "sub_loop b2 = SubBlocked None" "sub_watch b2 = Some (n, 1, Some 0)"
    "is_closed (sub_chans b2) 0" "sub_deaf b2"
    by (simp add: NewSubscriber_def go_loop_def subscriber_cache_Update_def make_chan_def
        subscriber_Stop_def close_chan_def is_closed_def sub_start_def sub_enter_def
        sub_recv_def sub_deaf_def)
  from b1 never [OF b1(5)] b2 never [OF b2(5)] show ?thesis by blast
qed

text \<open>
  The first run on the subscriber of \<^verbatim>\<open>TestSubscriber\<close>: the state it ends in, in
  which the loop cannot take the case \<^verbatim>\<open><-s.quitc\<close>, and where the loop is after a
  list from the client and one more \<^verbatim>\<open>Stop()\<close>.
\<close>

theorem Stop_outside_select_loop_never_exits_witness:
  "sub_run [CallStop, LoopStart, LoopEnter]
     (NewSubscriber ''foo.bar.baz'' () testFactory NewNopLogger)
     = Some (Inr \<lparr>sub_name = ''foo.bar.baz'', sub_client = (),
                  sub_cache = Cache_Update [] (Cache_New testFactory NewNopLogger),
                  sub_quitc = None, sub_chans = [True, False], sub_loop = SubBlocked None,
                  sub_entries = Some 1, sub_watch = Some (''foo.bar.baz'', 1, None),
                  sub_trace = [ActUpdate [], ActGoLoop, ActGoWatchEntries]\<rparr>)
   \<and> sub_step LoopQuit
       \<lparr>sub_name = ''foo.bar.baz'', sub_client = (),
        sub_cache = Cache_Update [] (Cache_New testFactory NewNopLogger),
        sub_quitc = None, sub_chans = [True, False], sub_loop = SubBlocked None,
        sub_entries = Some 1, sub_watch = Some (''foo.bar.baz'', 1, None),
        sub_trace = [ActUpdate [], ActGoLoop, ActGoWatchEntries]\<rparr> = None
   \<and> map_option (map_sum id sub_loop)
       (sub_run [CallStop, LoopStart, LoopEnter, LoopRecv [''instance-1''], LoopEnter, CallStop]
          (NewSubscriber ''foo.bar.baz'' () testFactory NewNopLogger))
     = Some (Inr (SubBlocked None))"
  using Stop_outside_select_loop_never_exits
          [of "''foo.bar.baz''" "()" testFactory NewNopLogger "[''instance-1'']"]
  by (simp add: NewSubscriber_def go_loop_def subscriber_cache_Update_def make_chan_def
      subscriber_Stop_def close_chan_def is_closed_def sub_start_def sub_enter_def
      sub_recv_def sub_quit_def recv_ready_def)

end
